theory Spec2Isabelle
  imports Complex_Main "HOL-Library.Log_Nat"
begin

section \<open>Data model of \<open>src/components/StatusMonitor.tsx\<close>\<close>

text \<open>
  The component reads three kinds of records. \<open>Tweet\<close> and \<open>PostHistoryItem\<close> are
  declared in other modules; only the fields the component reads are kept. The type of
  the two time stamps is not fixed by this file, so it is the parameter \<open>'ts\<close>.
\<close>

datatype Status = pending | posting | success | failed

record PostGroup =
  group_id :: string
  images :: "string list"
  status :: Status
  error :: "string option"
  retryCount :: int

record 'ts Tweet =
  tweet_id :: string
  tweet_text :: string
  createdAt :: 'ts

record 'ts PostHistoryItem =
  history_id :: string
  history_text :: string
  timestamp :: 'ts
  postUrl :: string

text \<open>The objects built by the two \<open>map\<close> calls of \<open>displayItems\<close> (lines 82-95).\<close>

record 'ts DisplayItem =
  item_id :: string
  item_text :: string
  item_createdAt :: 'ts
  source :: string
  url :: string

section \<open>State and effects\<close>

text \<open>
  The three \<open>useState\<close> cells of the component (lines 23-25), together with the part of
  the environment that \<open>fetchTimeline\<close> touches: the console, and the calls of
  \<open>getTimeline\<close> whose promise has not settled yet. Calls are numbered in the order in
  which they are made. A setter takes effect at the next render; no code of the
  component reads a cell between two setters, so each setter is a field update.
\<close>

datatype level = LogLevel | WarnLevel | ErrorLevel

record 'ts monitor =
  apiTweets :: "'ts Tweet list"
  loadingTimeline :: bool
  useFallback :: bool
  console :: "(level \<times> string \<times> string) list"
  issued :: nat
  in_flight :: "nat list"

text \<open>The state of a freshly mounted component: the initial values of \<open>useState\<close>.\<close>

definition mounted :: "'ts monitor" where
  "mounted =
     \<lparr>apiTweets = [], loadingTimeline = False, useFallback = False,
      console = [], issued = 0, in_flight = []\<rparr>"

text \<open>
  How the promise returned by \<open>getTimeline()\<close> settles: it resolves with a list of
  tweets, or it rejects with an error (here its message). The resolved value is stored
  with \<open>setApiTweets\<close>, whose argument has type \<open>Tweet[]\<close>, so it is never \<open>null\<close>.
\<close>

datatype 'ts outcome = Resolved "'ts Tweet list" | Rejected string

section \<open>\<open>fetchTimeline\<close> (lines 27-50)\<close>

text \<open>
  The function suspends once, at \<open>await getTimeline()\<close>. \<open>fetchTimeline_call\<close> is the
  part that runs synchronously when the function is called (lines 28-31): the two
  setters, in their order, then the call of the provider.
\<close>

definition getTimeline_call :: "'ts monitor \<Rightarrow> 'ts monitor" where
  "getTimeline_call s = s\<lparr>in_flight := in_flight s @ [issued s], issued := Suc (issued s)\<rparr>"

definition fetchTimeline_call :: "'ts monitor \<Rightarrow> 'ts monitor" where
  "fetchTimeline_call s =
     getTimeline_call ((s\<lparr>loadingTimeline := True\<rparr>)\<lparr>useFallback := False\<rparr>)"

text \<open>
  The rest runs when the promise settles. The body of \<open>try\<close> (lines 31-43) throws what
  the promise rejected with, and otherwise stores the tweets; \<open>Inl\<close> is a thrown error.
\<close>

definition try_block :: "'ts outcome \<Rightarrow> 'ts monitor \<Rightarrow> string + 'ts monitor" where
  "try_block r s =
     (case r of
        Rejected e \<Rightarrow> Inl e
      | Resolved tweets \<Rightarrow>
          if length tweets > 0
          then Inr ((s\<lparr>apiTweets := tweets\<rparr>)\<lparr>useFallback := False\<rparr>)
          else Inr (s\<lparr>apiTweets := tweets\<rparr>))"

text \<open>The \<open>catch\<close> clause (lines 44-46): one \<open>console.warn\<close>, then the fallback flag.\<close>

definition catch_block :: "string \<Rightarrow> 'ts monitor \<Rightarrow> 'ts monitor" where
  "catch_block e s =
     (s\<lparr>console := console s @
           [(WarnLevel, ''Timeline API failed, falling back to history:'', e)]\<rparr>)
      \<lparr>useFallback := True\<rparr>"

text \<open>The \<open>finally\<close> clause (lines 47-49).\<close>

definition finally_block :: "'ts monitor \<Rightarrow> 'ts monitor" where
  "finally_block s = s\<lparr>loadingTimeline := False\<rparr>"

text \<open>
  The continuation after \<open>await\<close>. Its result is what the promise of \<open>fetchTimeline\<close>
  itself settles with: \<open>Inl\<close> would be an error escaping to the caller.
\<close>

definition fetchTimeline_resume :: "'ts outcome \<Rightarrow> 'ts monitor \<Rightarrow> string + 'ts monitor" where
  "fetchTimeline_resume r s =
     (case try_block r s of
        Inr s' \<Rightarrow> Inr (finally_block s')
      | Inl e \<Rightarrow> Inr (finally_block (catch_block e s)))"

section \<open>Triggers and the order of events\<close>

text \<open>
  \<open>fetchTimeline\<close> is called by the effect of lines 52-54 (after mounting, and after
  every change of \<open>isPosting\<close>) and by a click on the refresh button (line 171), which
  is disabled while \<open>loadingTimeline\<close> holds. \<open>Settled k r\<close> is the moment at which the
  promise of call number \<open>k\<close> settles with \<open>r\<close>.
\<close>

datatype 'ts event = Mounted | PostingChanged | RefreshClicked | Settled nat "'ts outcome"

datatype fault = Uncaught string | NotInFlight nat

definition step :: "'ts event \<Rightarrow> 'ts monitor \<Rightarrow> fault + 'ts monitor" where
  "step ev s =
     (case ev of
        Mounted \<Rightarrow> Inr (fetchTimeline_call s)
      | PostingChanged \<Rightarrow> Inr (fetchTimeline_call s)
      | RefreshClicked \<Rightarrow> Inr (if loadingTimeline s then s else fetchTimeline_call s)
      | Settled k r \<Rightarrow>
          if k \<in> set (in_flight s)
          then (case fetchTimeline_resume r (s\<lparr>in_flight := removeAll k (in_flight s)\<rparr>) of
                  Inl e \<Rightarrow> Inl (Uncaught e)
                | Inr s' \<Rightarrow> Inr s')
          else Inl (NotInFlight k))"

fun run :: "'ts event list \<Rightarrow> 'ts monitor \<Rightarrow> fault + 'ts monitor" where
  "run [] s = Inr s"
| "run (ev # evs) s = (case step ev s of Inl f \<Rightarrow> Inl f | Inr s' \<Rightarrow> run evs s')"

section \<open>Derived values of a render (lines 81-100)\<close>

definition displayItems :: "'ts monitor \<Rightarrow> 'ts PostHistoryItem list \<Rightarrow> 'ts DisplayItem list" where
  "displayItems s history =
     (if useFallback s \<or> length (apiTweets s) = 0
      then map (\<lambda>h. \<lparr>item_id = history_id h, item_text = history_text h,
                     item_createdAt = timestamp h, source = ''history'',
                     url = postUrl h\<rparr>)
             (take 5 history)
      else map (\<lambda>t. \<lparr>item_id = tweet_id t, item_text = tweet_text t,
                     item_createdAt = createdAt t, source = ''api'',
                     url = ''https://twitter.com/i/web/status/'' @ tweet_id t\<rparr>)
             (apiTweets s))"

definition isShowingHistory :: "'ts monitor \<Rightarrow> bool" where
  "isShowingHistory s = (useFallback s \<or> length (apiTweets s) = 0)"

definition successCount :: "PostGroup list \<Rightarrow> nat" where
  "successCount groups = length (filter (\<lambda>g. status g = success) groups)"

section \<open>Numbers\<close>

text \<open>
  A JavaScript number is an IEEE 754 binary64 value. A finite one is represented by the
  rational it denotes (the sign of zero is not kept); the other values are the two
  infinities and NaN. Every arithmetic operator returns the binary64 value nearest to
  the exact result, ties going to the even significand.

  \<open>exponent x\<close> is the integer \<open>e\<close> with \<open>2\<^sup>e \<le> |x| < 2\<^sup>e\<^sup>+\<^sup>1\<close>, found from the bit lengths of
  numerator and denominator.
\<close>

datatype number = Finite rat | PosInfinity | NegInfinity | NaN

definition exponent :: "rat \<Rightarrow> int" where
  "exponent x =
     (let (p, q) = quotient_of \<bar>x\<bar>;
          d = bitlen p - bitlen q
      in if 2 powi d \<le> \<bar>x\<bar> then d else d - 1)"

text \<open>The integer nearest to \<open>x\<close>, the even one of the two at a tie.\<close>

definition roundTiesToEven :: "rat \<Rightarrow> int" where
  "roundTiesToEven x =
     (let n = \<lfloor>x\<rfloor>; r = x - of_int n
      in if r < 1 / 2 then n else if 1 / 2 < r then n + 1 else if even n then n else n + 1)"

text \<open>
  Rounding to 53 significant bits. Below \<open>2\<^sup>-\<^sup>1\<^sup>0\<^sup>2\<^sup>2\<close> the spacing stays that of the
  subnormal numbers, \<open>2\<^sup>-\<^sup>1\<^sup>0\<^sup>7\<^sup>4\<close>; a result that reaches \<open>2\<^sup>1\<^sup>0\<^sup>2\<^sup>4\<close> overflows to an
  infinity.
\<close>

definition nearest_binary64 :: "rat \<Rightarrow> rat" where
  "nearest_binary64 x =
     (if x = 0 then 0
      else let e = max (exponent x) (- 1022); ulp = 2 powi (e - 52)
           in of_int (roundTiesToEven (x / ulp)) * ulp)"

definition binary64 :: "rat \<Rightarrow> number" where
  "binary64 x =
     (let y = nearest_binary64 x
      in if 2 powi 1024 \<le> \<bar>y\<bar> then (if 0 < y then PosInfinity else NegInfinity)
         else Finite y)"

text \<open>
  The operators \<open>/\<close> and \<open>*\<close> and \<open>Math.round\<close>, for the operands they get in this
  component: the division is applied to two array lengths, which are integers below
  \<open>2\<^sup>3\<^sup>2\<close> and hence numbers exactly; the right factor of the product is the literal
  \<open>100\<close>. \<open>Math.round\<close> returns the nearest integer, the larger one at a tie.
\<close>

definition js_divide :: "rat \<Rightarrow> rat \<Rightarrow> number" where
  "js_divide a b =
     (if b = 0 then (if a = 0 then NaN else if 0 < a then PosInfinity else NegInfinity)
      else binary64 (a / b))"

definition js_times :: "number \<Rightarrow> rat \<Rightarrow> number" where
  "js_times x b =
     (case x of
        Finite a \<Rightarrow> binary64 (a * b)
      | PosInfinity \<Rightarrow> (if b = 0 then NaN else if 0 < b then PosInfinity else NegInfinity)
      | NegInfinity \<Rightarrow> (if b = 0 then NaN else if 0 < b then NegInfinity else PosInfinity)
      | NaN \<Rightarrow> NaN)"

definition Math_round :: "number \<Rightarrow> number" where
  "Math_round x = (case x of Finite a \<Rightarrow> Finite (of_int \<lfloor>a + 1 / 2\<rfloor>) | _ \<Rightarrow> x)"

text \<open>
  Lines 99-100. \<open>Math.max(groups.length, 1)\<close> is the maximum of two integers, taken
  before the conversion to a number.
\<close>

definition progress :: "PostGroup list \<Rightarrow> number" where
  "progress groups =
     Math_round
       (js_times
          (js_divide (of_nat (successCount groups)) (of_nat (max (length groups) 1)))
          100)"

section \<open>The progress panel (lines 111-157)\<close>

text \<open>
  What the upper panel renders: either the waiting block (lines 112-115), or the bar
  with its width in percent, the two counters of the caption, and one row per group
  (its number, its number of images and its status).
\<close>

datatype progress_view =
  Waiting
| ProgressBar number nat nat "(nat \<times> nat \<times> Status) list"

definition progress_panel :: "PostGroup list \<Rightarrow> progress_view" where
  "progress_panel groups =
     (if length groups = 0 then Waiting
      else ProgressBar (progress groups) (successCount groups) (length groups)
             (map (\<lambda>(index, group). (index + 1, length (images group), status group))
                (enumerate 0 groups)))"

section \<open>Basic facts about one call of \<open>fetchTimeline\<close>\<close>

lemma resume_Resolved:
  "fetchTimeline_resume (Resolved ts) s =
     Inr (if ts = [] then s\<lparr>apiTweets := [], loadingTimeline := False\<rparr>
          else s\<lparr>apiTweets := ts, useFallback := False, loadingTimeline := False\<rparr>)"
  by (simp add: fetchTimeline_resume_def try_block_def finally_block_def)

lemma resume_Rejected:
  "fetchTimeline_resume (Rejected e) s =
     Inr (s\<lparr>console := console s @
                [(WarnLevel, ''Timeline API failed, falling back to history:'', e)],
            useFallback := True, loadingTimeline := False\<rparr>)"
  by (simp add: fetchTimeline_resume_def try_block_def finally_block_def catch_block_def)

lemma resume_total: "\<exists>s'. fetchTimeline_resume r s = Inr s' \<and> \<not> loadingTimeline s'"
  by (cases r) (simp_all add: resume_Resolved resume_Rejected)

lemma call_fields [simp]:
  "apiTweets (fetchTimeline_call s) = apiTweets s"
  "loadingTimeline (fetchTimeline_call s) = True"
  "useFallback (fetchTimeline_call s) = False"
  "console (fetchTimeline_call s) = console s"
  "issued (fetchTimeline_call s) = Suc (issued s)"
  "in_flight (fetchTimeline_call s) = in_flight s @ [issued s]"
  by (simp_all add: fetchTimeline_call_def getTimeline_call_def)

lemma step_Settled:
  "k \<in> set (in_flight s) \<Longrightarrow>
   step (Settled k r) s =
     (case r of
        Resolved ts \<Rightarrow>
          Inr (if ts = []
               then s\<lparr>in_flight := removeAll k (in_flight s), apiTweets := [],
                      loadingTimeline := False\<rparr>
               else s\<lparr>in_flight := removeAll k (in_flight s), apiTweets := ts,
                      useFallback := False, loadingTimeline := False\<rparr>)
      | Rejected e \<Rightarrow>
          Inr (s\<lparr>in_flight := removeAll k (in_flight s),
                 console := console s @
                   [(WarnLevel, ''Timeline API failed, falling back to history:'', e)],
                 useFallback := True, loadingTimeline := False\<rparr>))"
  by (cases r) (simp_all add: step_def resume_Resolved resume_Rejected)

lemma step_trigger [simp]:
  "step Mounted s = Inr (fetchTimeline_call s)"
  "step PostingChanged s = Inr (fetchTimeline_call s)"
  by (simp_all add: step_def)

lemmas fetch_defs =
  mounted_def step_def fetchTimeline_call_def getTimeline_call_def
  fetchTimeline_resume_def try_block_def catch_block_def finally_block_def

lemma step_Settled_fields:
  assumes "k \<in> set (in_flight s)"
  shows "\<exists>s'. step (Settled k r) s = Inr s'
     \<and> \<not> loadingTimeline s'
     \<and> apiTweets s' = (case r of Resolved ts \<Rightarrow> ts | Rejected e \<Rightarrow> apiTweets s)
     \<and> useFallback s' =
         (case r of Rejected e \<Rightarrow> True | Resolved ts \<Rightarrow> ts = [] \<and> useFallback s)
     \<and> in_flight s' = removeAll k (in_flight s)"
  using assms by (cases r) (simp_all add: step_Settled)

lemma displayItems_history_eq:
  "isShowingHistory a \<Longrightarrow> isShowingHistory b \<Longrightarrow> displayItems a h = displayItems b h"
  by (simp add: isShowingHistory_def displayItems_def)

lemma displayItems_remote_eq:
  "\<not> isShowingHistory a \<Longrightarrow> \<not> isShowingHistory b \<Longrightarrow> apiTweets a = apiTweets b \<Longrightarrow>
   displayItems a h = displayItems b h"
  by (simp add: isShowingHistory_def displayItems_def)

lemma displayItems_history_length:
  "isShowingHistory s \<Longrightarrow> length (displayItems s history) = min 5 (length history)"
  by (simp add: isShowingHistory_def displayItems_def min.commute)

lemma displayItems_remote_length:
  "\<not> isShowingHistory s \<Longrightarrow> length (displayItems s history) = length (apiTweets s)"
  by (simp add: isShowingHistory_def displayItems_def)

section \<open>The history source\<close>

text \<open>
  Claim C3. When the provider resolves with no tweet at all, the component shows the
  history: whatever the state \<open>s\<close> in which \<open>fetchTimeline\<close> was called, the
  continuation stores the empty list, clears the loading flag, \<open>isShowingHistory\<close>
  holds, and \<open>displayItems\<close> is built from the first five entries of the history log,
  \<open>timestamp\<close> becoming \<open>createdAt\<close> and \<open>postUrl\<close> being copied to \<open>url\<close>.
\<close>

theorem empty_success_shows_history:
  "\<exists>s'. fetchTimeline_resume (Resolved []) (fetchTimeline_call s) = Inr s'
     \<and> apiTweets s' = []
     \<and> \<not> loadingTimeline s'
     \<and> isShowingHistory s'
     \<and> displayItems s' history =
         map (\<lambda>h. \<lparr>item_id = history_id h, item_text = history_text h,
                    item_createdAt = timestamp h, source = ''history'', url = postUrl h\<rparr>)
           (take 5 history)
     \<and> length (displayItems s' history) = min 5 (length history)
     \<and> map item_createdAt (displayItems s' history) = map timestamp (take 5 history)
     \<and> map url (displayItems s' history) = map postUrl (take 5 history)"
  by (simp add: resume_Resolved isShowingHistory_def displayItems_def comp_def min.commute)

text \<open>
  Claim C4. When the promise of the provider rejects, the \<open>catch\<close> clause absorbs the
  error: the continuation ends normally (\<open>Inr\<close>, nothing escapes to the caller), the
  console receives exactly one entry, at warning level, \<open>isShowingHistory\<close> holds and
  the history is displayed. The loading flag is cleared by the \<open>finally\<close> clause for
  every way in which the promise can settle.
\<close>

theorem rejected_fetch_falls_back:
  "\<exists>s'. fetchTimeline_resume (Rejected e) (fetchTimeline_call s) = Inr s'
     \<and> isShowingHistory s'
     \<and> displayItems s' history =
         map (\<lambda>h. \<lparr>item_id = history_id h, item_text = history_text h,
                    item_createdAt = timestamp h, source = ''history'', url = postUrl h\<rparr>)
           (take 5 history)
     \<and> console s' =
         console s @ [(WarnLevel, ''Timeline API failed, falling back to history:'', e)]
     \<and> \<not> loadingTimeline s'
     \<and> (\<forall>r. \<exists>s''. fetchTimeline_resume r (fetchTimeline_call s) = Inr s''
                 \<and> \<not> loadingTimeline s'')"
  by (simp add: resume_Rejected isShowingHistory_def displayItems_def resume_total)

text \<open>
  Claim C9. The error branch does not write \<open>apiTweets\<close>: after a failed fetch the
  stored tweets are those of the state before it. In particular the tweets of a
  successful fetch survive a later failed one, hidden behind the history display.
\<close>

theorem failed_fetch_keeps_apiTweets:
  "\<exists>s1 s2. fetchTimeline_resume (Rejected e) (fetchTimeline_call s) = Inr s1
     \<and> s1 = (fetchTimeline_call s)
          \<lparr>console := console s @
             [(WarnLevel, ''Timeline API failed, falling back to history:'', e)],
           useFallback := True, loadingTimeline := False\<rparr>
     \<and> apiTweets s1 = apiTweets s \<and> useFallback s1 \<and> \<not> loadingTimeline s1
     \<and> run [PostingChanged, Settled (issued s) (Resolved ts),
             PostingChanged, Settled (Suc (issued s)) (Rejected e)] s = Inr s2
     \<and> apiTweets s2 = ts \<and> isShowingHistory s2"
  by (simp add: resume_Rejected step_Settled isShowingHistory_def)

section \<open>The remote source\<close>

text \<open>
  Claim C6. When the provider resolves with at least one tweet, the remote source is
  shown: \<open>isShowingHistory\<close> is false and \<open>displayItems\<close> has one entry per tweet
  returned, in the same order, with the tweet's \<open>id\<close>, \<open>text\<close> and \<open>createdAt\<close>
  copied, the source tag of the remote branch (the string \<open>api\<close> in the code), and the
  permalink \<open>https://twitter.com/i/web/status/\<close> followed by the tweet's id.
\<close>

theorem nonempty_success_shows_remote:
  assumes "ts \<noteq> []"
  shows "\<exists>s'. fetchTimeline_resume (Resolved ts) (fetchTimeline_call s) = Inr s'
     \<and> \<not> loadingTimeline s' \<and> apiTweets s' = ts
     \<and> \<not> isShowingHistory s'
     \<and> length (displayItems s' history) = length ts
     \<and> (\<forall>i<length ts.
           item_id (displayItems s' history ! i) = tweet_id (ts ! i)
         \<and> item_text (displayItems s' history ! i) = tweet_text (ts ! i)
         \<and> item_createdAt (displayItems s' history ! i) = createdAt (ts ! i)
         \<and> source (displayItems s' history ! i) = ''api''
         \<and> url (displayItems s' history ! i) =
             ''https://twitter.com/i/web/status/'' @ tweet_id (ts ! i))"
  using assms
  by (simp add: resume_Resolved isShowingHistory_def displayItems_def)

text \<open>The same at three tweets and a freshly mounted component.\<close>

theorem nonempty_success_shows_remote_witness:
  "[\<lparr>tweet_id = ''101'', tweet_text = ''a'', createdAt = (3::nat)\<rparr>,
    \<lparr>tweet_id = ''102'', tweet_text = ''b'', createdAt = 2\<rparr>,
    \<lparr>tweet_id = ''103'', tweet_text = ''c'', createdAt = 1\<rparr>] \<noteq> []
   \<and> (\<exists>s'. fetchTimeline_resume
          (Resolved [\<lparr>tweet_id = ''101'', tweet_text = ''a'', createdAt = (3::nat)\<rparr>,
                     \<lparr>tweet_id = ''102'', tweet_text = ''b'', createdAt = 2\<rparr>,
                     \<lparr>tweet_id = ''103'', tweet_text = ''c'', createdAt = 1\<rparr>])
          (fetchTimeline_call mounted) = Inr s'
        \<and> \<not> isShowingHistory s'
        \<and> length (displayItems s' []) = 3
        \<and> source (displayItems s' [] ! 0) = ''api''
        \<and> item_createdAt (displayItems s' [] ! 2) = 1
        \<and> url (displayItems s' [] ! 1) = ''https://twitter.com/i/web/status/102'')"
proof -
  let ?ts = "[\<lparr>tweet_id = ''101'', tweet_text = ''a'', createdAt = (3::nat)\<rparr>,
    \<lparr>tweet_id = ''102'', tweet_text = ''b'', createdAt = 2\<rparr>,
    \<lparr>tweet_id = ''103'', tweet_text = ''c'', createdAt = 1\<rparr>]"
  have ne: "?ts \<noteq> []" by simp
  from nonempty_success_shows_remote [OF ne, of mounted "[]"]
  obtain s' where r: "fetchTimeline_resume (Resolved ?ts) (fetchTimeline_call mounted) = Inr s'"
    and h: "\<not> isShowingHistory s'" and l: "length (displayItems s' []) = length ?ts"
    and a: "\<forall>i<length ?ts.
           item_id (displayItems s' [] ! i) = tweet_id (?ts ! i)
         \<and> item_text (displayItems s' [] ! i) = tweet_text (?ts ! i)
         \<and> item_createdAt (displayItems s' [] ! i) = createdAt (?ts ! i)
         \<and> source (displayItems s' [] ! i) = ''api''
         \<and> url (displayItems s' [] ! i) =
             ''https://twitter.com/i/web/status/'' @ tweet_id (?ts ! i)"
    by blast
  from a have "source (displayItems s' [] ! 0) = ''api''"
    and "item_createdAt (displayItems s' [] ! 2) = 1"
    and "url (displayItems s' [] ! 1) = ''https://twitter.com/i/web/status/102''"
    by simp_all
  with r h l ne show ?thesis by auto
qed

text \<open>
  Claim C10. \<open>fetchTimeline\<close> clears the fallback flag before it calls the provider.
  Hence a fetch that fails, followed by a fetch that resolves with at least one tweet,
  ends with the remote source displayed: \<open>isShowingHistory\<close> is false and
  \<open>displayItems\<close> is built from the new tweets.
\<close>

theorem success_after_failure_restores_remote:
  assumes "ts \<noteq> []"
  shows "useFallback (fetchTimeline_call s) = False
     \<and> fetchTimeline_call s =
         getTimeline_call ((s\<lparr>loadingTimeline := True\<rparr>)\<lparr>useFallback := False\<rparr>)
     \<and> (\<exists>s1 s2. run [PostingChanged, Settled (issued s) (Rejected e)] s = Inr s1
           \<and> isShowingHistory s1
           \<and> run [PostingChanged, Settled (issued s1) (Resolved ts)] s1 = Inr s2
           \<and> \<not> isShowingHistory s2
           \<and> displayItems s2 history =
               map (\<lambda>t. \<lparr>item_id = tweet_id t, item_text = tweet_text t,
                          item_createdAt = createdAt t, source = ''api'',
                          url = ''https://twitter.com/i/web/status/'' @ tweet_id t\<rparr>) ts)"
proof -
  obtain s1 where s1: "run [PostingChanged, Settled (issued s) (Rejected e)] s = Inr s1"
    and f1: "useFallback s1"
    by (simp add: step_Settled)
  obtain s2 where s2: "run [PostingChanged, Settled (issued s1) (Resolved ts)] s1 = Inr s2"
    and f2: "\<not> useFallback s2" and a2: "apiTweets s2 = ts"
    using assms by (simp add: step_Settled)
  have c0: "useFallback (fetchTimeline_call s) = False"
    by simp
  moreover have "isShowingHistory s1"
    using f1 by (simp add: isShowingHistory_def)
  moreover have "\<not> isShowingHistory s2"
    using f2 a2 assms by (simp add: isShowingHistory_def)
  moreover have "displayItems s2 history =
      map (\<lambda>t. \<lparr>item_id = tweet_id t, item_text = tweet_text t,
                 item_createdAt = createdAt t, source = ''api'',
                 url = ''https://twitter.com/i/web/status/'' @ tweet_id t\<rparr>) ts"
    using f2 a2 assms by (simp add: displayItems_def)
  moreover have "fetchTimeline_call s =
      getTimeline_call ((s\<lparr>loadingTimeline := True\<rparr>)\<lparr>useFallback := False\<rparr>)"
    by (simp add: fetchTimeline_call_def)
  ultimately show ?thesis
    using s1 s2 by blast
qed

text \<open>The same at one tweet, from a freshly mounted component.\<close>

theorem success_after_failure_restores_remote_witness:
  "[\<lparr>tweet_id = ''7'', tweet_text = ''back'', createdAt = (9::nat)\<rparr>] \<noteq> []
   \<and> (\<exists>s1 s2. run [PostingChanged, Settled (issued (mounted :: nat monitor)) (Rejected ''429'')]
                  (mounted :: nat monitor) = Inr s1
          \<and> isShowingHistory s1
          \<and> run [PostingChanged,
                  Settled (issued s1)
                    (Resolved [\<lparr>tweet_id = ''7'', tweet_text = ''back'', createdAt = 9\<rparr>])] s1
              = Inr s2
          \<and> \<not> isShowingHistory s2
          \<and> displayItems s2 [] =
              [\<lparr>item_id = ''7'', item_text = ''back'', item_createdAt = 9, source = ''api'',
                url = ''https://twitter.com/i/web/status/7''\<rparr>])"
proof -
  have ne: "[\<lparr>tweet_id = ''7'', tweet_text = ''back'', createdAt = (9::nat)\<rparr>] \<noteq> []"
    by simp
  from success_after_failure_restores_remote [OF ne, of "mounted :: nat monitor" "''429''" "[]"]
  obtain s1 s2 :: "nat monitor"
    where r1: "run [PostingChanged, Settled (issued (mounted :: nat monitor)) (Rejected ''429'')]
                 (mounted :: nat monitor) = Inr s1"
      and h1: "isShowingHistory s1"
      and r2: "run [PostingChanged,
                    Settled (issued s1)
                      (Resolved [\<lparr>tweet_id = ''7'', tweet_text = ''back'', createdAt = 9\<rparr>])] s1
                 = Inr s2"
      and h2: "\<not> isShowingHistory s2"
      and d2: "displayItems s2 [] =
                 map (\<lambda>t. \<lparr>item_id = tweet_id t, item_text = tweet_text t,
                            item_createdAt = createdAt t, source = ''api'',
                            url = ''https://twitter.com/i/web/status/'' @ tweet_id t\<rparr>)
                   [\<lparr>tweet_id = ''7'', tweet_text = ''back'', createdAt = 9\<rparr>]"
    by blast
  from d2 have d: "displayItems s2 [] =
      [\<lparr>item_id = ''7'', item_text = ''back'', item_createdAt = 9, source = ''api'',
        url = ''https://twitter.com/i/web/status/7''\<rparr>]"
    by simp
  show ?thesis
    by (intro conjI exI [of _ s1] exI [of _ s2] ne r1 h1 r2 h2 d)
qed

text \<open>
  Claim C2 (the bound of five on \<open>displayItems\<close>). The history branch takes the first
  five entries; the remote branch maps every stored tweet. A fetch that resolves with
  six tweets is displayed as six items.
\<close>

theorem six_remote_items_all_displayed:
  "run [Mounted,
        Settled 0 (Resolved (map (\<lambda>i. \<lparr>tweet_id = i, tweet_text = ''post'', createdAt = (0::nat)\<rparr>)
                      [''1'', ''2'', ''3'', ''4'', ''5'', ''6'']))] mounted
     = Inr \<lparr>apiTweets = map (\<lambda>i. \<lparr>tweet_id = i, tweet_text = ''post'', createdAt = 0\<rparr>)
                      [''1'', ''2'', ''3'', ''4'', ''5'', ''6''],
            loadingTimeline = False, useFallback = False, console = [],
            issued = 1, in_flight = []\<rparr>
   \<and> length (displayItems
         \<lparr>apiTweets = map (\<lambda>i. \<lparr>tweet_id = i, tweet_text = ''post'', createdAt = (0::nat)\<rparr>)
                      [''1'', ''2'', ''3'', ''4'', ''5'', ''6''],
            loadingTimeline = False, useFallback = False, console = [],
            issued = 1, in_flight = []\<rparr> []) = 6"
  by (simp add: fetch_defs displayItems_def)

section \<open>Overlapping fetches\<close>

text \<open>
  Claim C1, as stated, at concrete inputs. Two calls are in flight (numbers 0 and 1).
  First: call 0 resolves with one tweet, then call 1 rejects; the tweet of the response
  that settled first stays in \<open>apiTweets\<close>, whereas dropping that response would leave
  \<open>apiTweets\<close> empty. Second: call 1 (triggered later) resolves first, then call 0
  resolves; the response of the older call replaces the one of the newer call.
\<close>

theorem stale_response_counterexample:
  "run [Mounted, PostingChanged,
        Settled 0 (Resolved [\<lparr>tweet_id = ''1'', tweet_text = ''old'', createdAt = (1::nat)\<rparr>]),
        Settled 1 (Rejected ''429'')] mounted
     = Inr \<lparr>apiTweets = [\<lparr>tweet_id = ''1'', tweet_text = ''old'', createdAt = 1\<rparr>],
            loadingTimeline = False, useFallback = True,
            console = [(WarnLevel, ''Timeline API failed, falling back to history:'', ''429'')],
            issued = 2, in_flight = []\<rparr>
   \<and> run [Mounted, PostingChanged, Settled 1 (Rejected ''429'')] mounted
     = Inr \<lparr>apiTweets = ([] :: nat Tweet list),
            loadingTimeline = False, useFallback = True,
            console = [(WarnLevel, ''Timeline API failed, falling back to history:'', ''429'')],
            issued = 2, in_flight = [0]\<rparr>
   \<and> run [Mounted, PostingChanged,
        Settled 1 (Resolved [\<lparr>tweet_id = ''2'', tweet_text = ''new'', createdAt = (2::nat)\<rparr>]),
        Settled 0 (Resolved [\<lparr>tweet_id = ''1'', tweet_text = ''old'', createdAt = 1\<rparr>])] mounted
     = Inr \<lparr>apiTweets = [\<lparr>tweet_id = ''1'', tweet_text = ''old'', createdAt = 1\<rparr>],
            loadingTimeline = False, useFallback = False, console = [],
            issued = 2, in_flight = []\<rparr>"
  by (simp add: fetch_defs)

text \<open>
  Claim C1, amended. When a second fetch is triggered while the first is in flight, no
  response is dropped: both are applied, in the order in which they settle, whichever
  call they belong to. The final state has the loading flag cleared; \<open>apiTweets\<close> is
  the list of the response that settled last if that one resolved, and otherwise what
  the response that settled first left; \<open>useFallback\<close> holds exactly when the last
  response rejected, or was empty after a rejected first one. What is displayed
  (\<open>displayItems\<close>, \<open>isShowingHistory\<close>) is what a single fetch settling with the
  last response would display.
\<close>

theorem overlapping_fetches_apply_in_settle_order:
  assumes "(k1 = issued s \<and> k2 = Suc (issued s)) \<or> (k1 = Suc (issued s) \<and> k2 = issued s)"
  shows "\<exists>s'. run [PostingChanged, PostingChanged, Settled k1 r1, Settled k2 r2] s = Inr s'
     \<and> \<not> loadingTimeline s'
     \<and> apiTweets s' =
         (case r2 of
            Resolved ts \<Rightarrow> ts
          | Rejected e \<Rightarrow> (case r1 of Resolved ts \<Rightarrow> ts | Rejected e' \<Rightarrow> apiTweets s))
     \<and> useFallback s' =
         (case r2 of
            Rejected e \<Rightarrow> True
          | Resolved ts \<Rightarrow>
              ts = [] \<and> (case r1 of Rejected e' \<Rightarrow> True | Resolved ts' \<Rightarrow> False))
     \<and> (\<exists>s1. run [PostingChanged, Settled (issued s) r2] s = Inr s1
           \<and> displayItems s' history = displayItems s1 history
           \<and> isShowingHistory s' = isShowingHistory s1)"
proof -
  let ?c = "fetchTimeline_call (fetchTimeline_call s)"
  have ne: "k1 \<noteq> k2" and in1: "k1 \<in> set (in_flight ?c)" and in2: "k2 \<in> set (in_flight ?c)"
    using assms by auto
  obtain sa where a: "step (Settled k1 r1) ?c = Inr sa"
    and a_api: "apiTweets sa = (case r1 of Resolved ts \<Rightarrow> ts | Rejected e \<Rightarrow> apiTweets s)"
    and a_fb: "useFallback sa = (case r1 of Rejected e \<Rightarrow> True | Resolved ts \<Rightarrow> False)"
    and a_fl: "in_flight sa = removeAll k1 (in_flight ?c)"
    using step_Settled_fields [OF in1, of r1] by (cases r1) auto
  have "set (in_flight sa) = set (in_flight ?c) - {k1}"
    using a_fl by (simp only: set_removeAll)
  then have in2': "k2 \<in> set (in_flight sa)"
    using in2 ne by blast
  obtain s' where b: "step (Settled k2 r2) sa = Inr s'"
    and b_ld: "\<not> loadingTimeline s'"
    and b_api: "apiTweets s' = (case r2 of Resolved ts \<Rightarrow> ts | Rejected e \<Rightarrow> apiTweets sa)"
    and b_fb: "useFallback s' =
         (case r2 of Rejected e \<Rightarrow> True | Resolved ts \<Rightarrow> ts = [] \<and> useFallback sa)"
    using step_Settled_fields [OF in2', of r2] by blast
  have run2: "run [PostingChanged, PostingChanged, Settled k1 r1, Settled k2 r2] s = Inr s'"
    using a b by simp
  have in0: "issued s \<in> set (in_flight (fetchTimeline_call s))"
    by simp
  obtain s1 where c: "step (Settled (issued s) r2) (fetchTimeline_call s) = Inr s1"
    and c_api: "apiTweets s1 = (case r2 of Resolved ts \<Rightarrow> ts | Rejected e \<Rightarrow> apiTweets s)"
    and c_fb: "useFallback s1 = (case r2 of Rejected e \<Rightarrow> True | Resolved ts \<Rightarrow> False)"
    using step_Settled_fields [OF in0, of r2] by (cases r2) auto
  have run1: "run [PostingChanged, Settled (issued s) r2] s = Inr s1"
    using c by simp
  have api: "apiTweets s' =
         (case r2 of
            Resolved ts \<Rightarrow> ts
          | Rejected e \<Rightarrow> (case r1 of Resolved ts \<Rightarrow> ts | Rejected e' \<Rightarrow> apiTweets s))"
    using b_api a_api by (cases r2) simp_all
  have fb: "useFallback s' =
         (case r2 of
            Rejected e \<Rightarrow> True
          | Resolved ts \<Rightarrow>
              ts = [] \<and> (case r1 of Rejected e' \<Rightarrow> True | Resolved ts' \<Rightarrow> False))"
    using b_fb a_fb by (cases r2) simp_all
  have hist: "isShowingHistory s' = isShowingHistory s1"
  proof (cases r2)
    case (Resolved ts)
    then have "apiTweets s' = ts" and "apiTweets s1 = ts"
      and "useFallback s' = (ts = [] \<and> useFallback sa)" and "\<not> useFallback s1"
      using b_api b_fb c_api c_fb by simp_all
    then show ?thesis
      unfolding isShowingHistory_def by auto
  next
    case (Rejected e)
    then have "useFallback s'" and "useFallback s1"
      using b_fb c_fb by simp_all
    then show ?thesis
      unfolding isShowingHistory_def by simp
  qed
  have disp: "displayItems s' history = displayItems s1 history"
  proof (cases "isShowingHistory s1")
    case True
    then show ?thesis using hist by (intro displayItems_history_eq) simp_all
  next
    case False
    then obtain ts where "r2 = Resolved ts"
      using c_fb by (cases r2) (simp_all add: isShowingHistory_def)
    then have "apiTweets s' = apiTweets s1"
      using b_api c_api by simp
    then show ?thesis using False hist by (intro displayItems_remote_eq) simp_all
  qed
  have single: "\<exists>s1. run [PostingChanged, Settled (issued s) r2] s = Inr s1
           \<and> displayItems s' history = displayItems s1 history
           \<and> isShowingHistory s' = isShowingHistory s1"
    by (intro exI [of _ s1] conjI run1 disp hist)
  show ?thesis
    by (intro exI [of _ s'] conjI run2 b_ld api fb single)
qed

text \<open>The same at the first of the two concrete runs above.\<close>

theorem overlapping_fetches_apply_in_settle_order_witness:
  "((0::nat) = issued (mounted :: nat monitor) \<and> (1::nat) = Suc (issued (mounted :: nat monitor)))
   \<and> (\<exists>s'. run [PostingChanged, PostingChanged,
                 Settled 0 (Resolved [\<lparr>tweet_id = ''1'', tweet_text = ''old'', createdAt = (1::nat)\<rparr>]),
                 Settled 1 (Rejected ''429'')] mounted = Inr s'
          \<and> \<not> loadingTimeline s'
          \<and> apiTweets s' = [\<lparr>tweet_id = ''1'', tweet_text = ''old'', createdAt = 1\<rparr>]
          \<and> useFallback s')"
proof -
  have h: "((0::nat) = issued (mounted :: nat monitor)
            \<and> (1::nat) = Suc (issued (mounted :: nat monitor)))"
    by (simp add: mounted_def)
  then have "((0::nat) = issued (mounted :: nat monitor)
            \<and> (1::nat) = Suc (issued (mounted :: nat monitor)))
       \<or> ((0::nat) = Suc (issued (mounted :: nat monitor))
            \<and> (1::nat) = issued (mounted :: nat monitor))"
    by blast
  from overlapping_fetches_apply_in_settle_order [OF this,
      of "Resolved [\<lparr>tweet_id = ''1'', tweet_text = ''old'', createdAt = (1::nat)\<rparr>]"
         "Rejected ''429''" "[]"]
  show ?thesis using h by auto
qed

text \<open>
  Claim C7, as stated, at a concrete input. After mounting, the component is loading
  with call 0 in flight; a change of \<open>isPosting\<close> then runs \<open>fetchTimeline\<close> again and
  a second call of the provider is in flight.
\<close>

theorem reentrant_trigger_counterexample:
  "run [Mounted] mounted
     = Inr \<lparr>apiTweets = ([] :: nat Tweet list), loadingTimeline = True, useFallback = False,
            console = [], issued = 1, in_flight = [0]\<rparr>
   \<and> step PostingChanged
        \<lparr>apiTweets = ([] :: nat Tweet list), loadingTimeline = True, useFallback = False,
         console = [], issued = 1, in_flight = [0]\<rparr>
     = Inr \<lparr>apiTweets = [], loadingTimeline = True, useFallback = False,
            console = [], issued = 2, in_flight = [0, 1]\<rparr>"
  by (simp add: fetch_defs)

text \<open>
  Claim C7, amended. While \<open>loadingTimeline\<close> holds, only the refresh button is
  guarded: a click changes nothing. \<open>fetchTimeline\<close> itself has no guard: run by the
  effect while loading, it issues one more call of the provider, and the response of
  every call in flight is applied when it settles.
\<close>

theorem only_refresh_button_is_guarded:
  assumes "loadingTimeline s"
  shows "step RefreshClicked s = Inr s
     \<and> step PostingChanged s = Inr (fetchTimeline_call s)
     \<and> in_flight (fetchTimeline_call s) = in_flight s @ [issued s]
     \<and> length (in_flight (fetchTimeline_call s)) = Suc (length (in_flight s))
     \<and> (\<forall>k r. k \<in> set (in_flight (fetchTimeline_call s)) \<longrightarrow>
           (\<exists>s'. step (Settled k r) (fetchTimeline_call s) = Inr s'
              \<and> \<not> loadingTimeline s'
              \<and> apiTweets s' = (case r of Resolved ts \<Rightarrow> ts | Rejected e \<Rightarrow> apiTweets s)
              \<and> useFallback s' = (case r of Resolved ts \<Rightarrow> False | Rejected e \<Rightarrow> True)
              \<and> in_flight s' = removeAll k (in_flight (fetchTimeline_call s))))"
proof -
  have "step RefreshClicked s = Inr s"
    using assms by (simp add: step_def)
  moreover have "\<exists>s'. step (Settled k r) (fetchTimeline_call s) = Inr s'
      \<and> \<not> loadingTimeline s'
      \<and> apiTweets s' = (case r of Resolved ts \<Rightarrow> ts | Rejected e \<Rightarrow> apiTweets s)
      \<and> useFallback s' = (case r of Resolved ts \<Rightarrow> False | Rejected e \<Rightarrow> True)
      \<and> in_flight s' = removeAll k (in_flight (fetchTimeline_call s))"
    if "k \<in> set (in_flight (fetchTimeline_call s))" for k r
    using step_Settled_fields [OF that, of r] by (cases r) auto
  ultimately show ?thesis
    by simp
qed

text \<open>The same in the state right after mounting.\<close>

theorem only_refresh_button_is_guarded_witness:
  "loadingTimeline (fetchTimeline_call (mounted :: nat monitor))
   \<and> step RefreshClicked (fetchTimeline_call (mounted :: nat monitor))
       = Inr (fetchTimeline_call mounted)
   \<and> step PostingChanged (fetchTimeline_call (mounted :: nat monitor))
       = Inr (fetchTimeline_call (fetchTimeline_call mounted))
   \<and> in_flight (fetchTimeline_call (fetchTimeline_call (mounted :: nat monitor))) = [0, 1]"
proof -
  have h: "loadingTimeline (fetchTimeline_call (mounted :: nat monitor))"
    by simp
  from only_refresh_button_is_guarded [OF h] show ?thesis
    using h by (simp add: mounted_def)
qed

section \<open>Facts about binary64 rounding\<close>

lemma bitlen_powi_bounds:
  assumes "0 < p"
  shows "(2::rat) powi (bitlen p - 1) \<le> of_int p" and "of_int p < (2::rat) powi bitlen p"
proof -
  have b: "0 \<le> bitlen p - 1" "0 \<le> bitlen p"
    using assms bitlen_bounds [OF assms] bitlen_nonneg [of p]
    by (auto simp add: bitlen_alt_def)
  have "(2::int) ^ nat (bitlen p - 1) \<le> p" and "p < 2 ^ nat (bitlen p)"
    using bitlen_bounds [OF assms] by simp_all
  then have "of_int ((2::int) ^ nat (bitlen p - 1)) \<le> (of_int p :: rat)"
    and "(of_int p :: rat) < of_int (2 ^ nat (bitlen p))"
    by (simp_all only: of_int_le_iff of_int_less_iff)
  then show "(2::rat) powi (bitlen p - 1) \<le> of_int p" and "of_int p < (2::rat) powi bitlen p"
    using b by (simp_all add: power_int_nonneg_exp)
qed

lemma exponent_bounds:
  assumes "x \<noteq> 0"
  shows "2 powi exponent x \<le> \<bar>x\<bar>" and "\<bar>x\<bar> < 2 powi (exponent x + 1)"
proof -
  obtain p q where pq: "quotient_of \<bar>x\<bar> = (p, q)"
    by force
  have q: "0 < q"
    using quotient_of_denom_pos [OF pq] .
  have ax: "\<bar>x\<bar> = of_int p / of_int q"
    using quotient_of_div [OF pq] .
  have p: "0 < p"
  proof (rule ccontr)
    assume "\<not> 0 < p"
    then have "(of_int p :: rat) \<le> 0" by simp
    then have "of_int p / (of_int q :: rat) \<le> 0"
      using q by (simp add: divide_le_0_iff)
    then show False using ax assms by simp
  qed
  define d where "d = bitlen p - bitlen q"
  have qpos: "(0::rat) < of_int q" using q by simp
  have up: "\<bar>x\<bar> < 2 powi (d + 1)"
  proof -
    have "of_int p < (2::rat) powi bitlen p"
      using bitlen_powi_bounds [OF p] by simp
    also have "\<dots> = 2 powi (d + 1) * 2 powi (bitlen q - 1)"
      by (simp add: d_def flip: power_int_add)
    also have "\<dots> \<le> 2 powi (d + 1) * of_int q"
      using bitlen_powi_bounds(1) [OF q] by (simp add: mult_left_mono)
    finally show ?thesis
      using qpos by (simp add: ax divide_less_eq)
  qed
  have lo: "2 powi (d - 1) \<le> \<bar>x\<bar>"
  proof -
    have "2 powi (d - 1) * of_int q \<le> (2::rat) powi (d - 1) * 2 powi bitlen q"
      using bitlen_powi_bounds(2) [OF q] by (simp add: mult_left_mono)
    also have "\<dots> = 2 powi (bitlen p - 1)"
      by (simp add: d_def flip: power_int_add)
    also have "\<dots> \<le> of_int p"
      using bitlen_powi_bounds(1) [OF p] .
    finally show ?thesis
      using qpos by (simp add: ax le_divide_eq)
  qed
  have e: "exponent x = (if 2 powi d \<le> \<bar>x\<bar> then d else d - 1)"
    by (simp add: exponent_def pq d_def Let_def)
  show "2 powi exponent x \<le> \<bar>x\<bar>"
    using lo by (simp add: e)
  show "\<bar>x\<bar> < 2 powi (exponent x + 1)"
    using up by (simp add: e)
qed

lemma roundTiesToEven_le:
  assumes "x \<le> of_int N"
  shows "roundTiesToEven x \<le> N"
proof (cases "\<lfloor>x\<rfloor> = N")
  case True
  then have "x - of_int \<lfloor>x\<rfloor> \<le> 0"
    using assms by simp
  then show ?thesis
    using True unfolding roundTiesToEven_def Let_def by simp
next
  case False
  have "\<lfloor>x\<rfloor> \<le> N"
    using assms by (simp add: floor_le_iff)
  then have "\<lfloor>x\<rfloor> + 1 \<le> N"
    using False by simp
  moreover have "roundTiesToEven x \<le> \<lfloor>x\<rfloor> + 1"
    unfolding roundTiesToEven_def Let_def by simp
  ultimately show ?thesis
    by simp
qed

lemma roundTiesToEven_ge:
  assumes "of_int N \<le> x"
  shows "N \<le> roundTiesToEven x"
proof -
  have "N \<le> \<lfloor>x\<rfloor>" using assms by (simp add: le_floor_iff)
  then show ?thesis
    unfolding roundTiesToEven_def Let_def by auto
qed

lemma roundTiesToEven_error: "\<bar>of_int (roundTiesToEven x) - x\<bar> \<le> 1 / 2"
proof -
  have "0 \<le> x - of_int \<lfloor>x\<rfloor>" and "x - of_int \<lfloor>x\<rfloor> < 1"
    by linarith+
  then show ?thesis
    unfolding roundTiesToEven_def Let_def by (auto simp add: abs_le_iff)
qed

lemma exponent_less:
  assumes "x \<noteq> 0" and "\<bar>x\<bar> < 2 powi k"
  shows "exponent x < k"
proof -
  have lt: "(2::rat) powi exponent x < 2 powi k"
    using exponent_bounds(1) [OF assms(1)] assms(2) by simp
  show ?thesis
  proof (rule ccontr)
    assume "\<not> exponent x < k"
    then have "(2::rat) powi k \<le> 2 powi exponent x"
      by (intro power_int_increasing) simp_all
    then show False using lt by simp
  qed
qed

lemma exponent_ge:
  assumes "2 powi k \<le> \<bar>x\<bar>"
  shows "k \<le> exponent x"
proof -
  have "(0::rat) < 2 powi k"
    by simp
  then have "0 < \<bar>x\<bar>"
    using assms by (rule less_le_trans)
  then have nz: "x \<noteq> 0"
    by simp
  have lt: "(2::rat) powi k < 2 powi (exponent x + 1)"
    using exponent_bounds(2) [OF nz] assms by simp
  show ?thesis
  proof (rule ccontr)
    assume "\<not> k \<le> exponent x"
    then have "(2::rat) powi (exponent x + 1) \<le> 2 powi k"
      by (intro power_int_increasing) simp_all
    then show False using lt by simp
  qed
qed

lemma nearest_binary64_nonneg:
  assumes "0 \<le> x"
  shows "0 \<le> nearest_binary64 x"
proof (cases "x = 0")
  case True
  then show ?thesis by (simp add: nearest_binary64_def)
next
  case False
  define u :: rat where "u = 2 powi (max (exponent x) (- 1022) - 52)"
  have u: "0 < u" by (simp add: u_def)
  have "of_int 0 \<le> x / u"
    using assms u by simp
  then have "0 \<le> roundTiesToEven (x / u)"
    by (rule roundTiesToEven_ge)
  then show ?thesis
    using False u by (simp add: nearest_binary64_def Let_def u_def)
qed

lemma nearest_binary64_le_int:
  assumes "0 < x" and "x \<le> of_int N" and "N < 2 ^ 53"
  shows "nearest_binary64 x \<le> of_int N"
proof -
  define e where "e = max (exponent x) (- 1022)"
  define u :: rat where "u = 2 powi (e - 52)"
  have u: "0 < u" by (simp add: u_def)
  have "\<bar>x\<bar> < 2 powi 53"
    using assms by (simp add: less_le_trans [of _ "of_int N"] order.strict_trans1)
  then have "exponent x < 53"
    using assms(1) by (intro exponent_less) simp_all
  then have k: "0 \<le> 52 - e"
    by (simp add: e_def)
  have "1 / u = 2 powi (52 - e)"
    by (simp add: u_def power_int_diff)
  also have "\<dots> = of_int (2 ^ nat (52 - e))"
    using k by (simp add: power_int_nonneg_exp)
  finally have inv: "1 / u = of_int (2 ^ nat (52 - e))" .
  have "x / u \<le> of_int N / u"
    using assms(2) u by (simp add: divide_right_mono)
  also have "\<dots> = of_int N * (1 / u)"
    by simp
  also have "\<dots> = of_int (N * 2 ^ nat (52 - e))"
    by (simp only: inv of_int_mult)
  finally have "roundTiesToEven (x / u) \<le> N * 2 ^ nat (52 - e)"
    by (rule roundTiesToEven_le)
  then have "(of_int (roundTiesToEven (x / u)) :: rat) \<le> of_int (N * 2 ^ nat (52 - e))"
    by (simp only: of_int_le_iff)
  then have "of_int (roundTiesToEven (x / u)) * u \<le> of_int (N * 2 ^ nat (52 - e)) * u"
    using u by (simp add: mult_right_mono)
  also have "of_int (N * 2 ^ nat (52 - e)) * u = of_int N * ((1 / u) * u)"
    by (simp only: inv of_int_mult mult.assoc)
  also have "\<dots> = of_int N"
    using u by simp
  finally show ?thesis
    using assms(1) by (simp add: nearest_binary64_def Let_def u_def e_def)
qed

lemma nearest_binary64_error:
  assumes "2 powi (- 1022) \<le> \<bar>x\<bar>"
  shows "\<bar>nearest_binary64 x - x\<bar> \<le> \<bar>x\<bar> / 2 ^ 53"
proof -
  have "(0::rat) < 2 powi (- 1022)"
    by (simp only: zero_less_power_int zero_less_numeral)
  then have "0 < \<bar>x\<bar>"
    using assms by (rule less_le_trans)
  then have nz: "x \<noteq> 0"
    by simp
  have e: "max (exponent x) (- 1022) = exponent x"
    using exponent_ge [OF assms] by simp
  define u :: rat where "u = 2 powi (exponent x - 52)"
  have u: "0 < u" by (simp add: u_def)
  have nb: "nearest_binary64 x = of_int (roundTiesToEven (x / u)) * u"
    using nz by (simp add: nearest_binary64_def Let_def e u_def)
  have "nearest_binary64 x - x = (of_int (roundTiesToEven (x / u)) - x / u) * u"
    using u by (simp add: nb left_diff_distrib)
  then have "\<bar>nearest_binary64 x - x\<bar> = \<bar>of_int (roundTiesToEven (x / u)) - x / u\<bar> * u"
    using u by (simp only: abs_mult abs_of_pos)
  also have "\<dots> \<le> (1 / 2) * u"
    using roundTiesToEven_error [of "x / u"] u by (intro mult_right_mono) simp_all
  also have "\<dots> = 2 powi exponent x / 2 ^ 53"
    by (simp add: u_def power_int_diff)
  also have "\<dots> \<le> \<bar>x\<bar> / 2 ^ 53"
    using exponent_bounds(1) [OF nz] by (simp add: divide_right_mono)
  finally show ?thesis .
qed

lemma nearest_binary64_0 [simp]: "nearest_binary64 0 = 0"
  by (simp add: nearest_binary64_def)

lemma nearest_binary64_between:
  assumes "0 \<le> x" and "x \<le> of_int N" and "N < 2 ^ 53"
  shows "0 \<le> nearest_binary64 x" and "nearest_binary64 x \<le> of_int N"
proof -
  show "0 \<le> nearest_binary64 x"
    using assms(1) by (rule nearest_binary64_nonneg)
  show "nearest_binary64 x \<le> of_int N"
  proof (cases "x = 0")
    case True
    then show ?thesis using assms(2) by simp
  next
    case False
    then have "0 < x" using assms(1) by simp
    then show ?thesis using assms(2,3) by (rule nearest_binary64_le_int)
  qed
qed

lemma binary64_Finite:
  assumes "0 \<le> x" and "x \<le> of_int N" and "N < 2 ^ 53"
  shows "binary64 x = Finite (nearest_binary64 x)"
proof -
  have "\<bar>nearest_binary64 x\<bar> \<le> of_int N"
    using nearest_binary64_between [OF assms] by simp
  also have "(of_int N :: rat) < of_int (2 ^ 53)"
    using assms(3) by (simp only: of_int_less_iff)
  also have "(of_int (2 ^ 53) :: rat) < 2 powi 1024"
    by simp
  finally show ?thesis
    by (simp add: binary64_def Let_def)
qed

lemma successCount_le: "successCount groups \<le> max (length groups) 1"
  by (simp add: successCount_def le_max_iff_disj)

lemma ratio_bounds:
  fixes s n :: nat
  assumes "s \<le> n" and "0 < n"
  shows "(0::rat) \<le> of_nat s / of_nat n" and "(of_nat s / of_nat n :: rat) \<le> 1"
  using assms by simp_all

text \<open>The three numbers computed on the way.\<close>

lemma progress_unfold:
  fixes groups :: "PostGroup list"
  defines "q \<equiv> (of_nat (successCount groups) / of_nat (max (length groups) 1) :: rat)"
  defines "a \<equiv> nearest_binary64 q"
  defines "y \<equiv> nearest_binary64 (a * 100)"
  shows "progress groups = Finite (of_int \<lfloor>y + 1 / 2\<rfloor>)"
    and "0 \<le> q" and "q \<le> 1" and "0 \<le> a" and "a \<le> 1" and "0 \<le> y" and "y \<le> 100"
proof -
  have n: "0 < max (length groups) 1" by simp
  show q: "0 \<le> q" "q \<le> 1"
    unfolding q_def using ratio_bounds [OF successCount_le n] by simp_all
  have q1: "q \<le> of_int 1" using q by simp
  have a': "0 \<le> a" "a \<le> of_int 1"
    unfolding a_def using nearest_binary64_between [OF q(1) q1] by simp_all
  then show a: "0 \<le> a" "a \<le> 1" by simp_all
  have d: "js_divide (of_nat (successCount groups)) (of_nat (max (length groups) 1)) = Finite a"
    unfolding a_def q_def [symmetric]
    using binary64_Finite [OF q(1) q1] by (simp add: js_divide_def q_def)
  have a100: "0 \<le> a * 100" "a * 100 \<le> of_int 100"
    using a by simp_all
  have y': "0 \<le> y" "y \<le> of_int 100"
    unfolding y_def using nearest_binary64_between [OF a100] by simp_all
  then show "0 \<le> y" "y \<le> 100" by simp_all
  have t: "js_times (Finite a) 100 = Finite y"
    unfolding y_def using binary64_Finite [OF a100] by (simp add: js_times_def)
  show "progress groups = Finite (of_int \<lfloor>y + 1 / 2\<rfloor>)"
    by (simp only: progress_def d t Math_round_def number.case)
qed

lemma progress_range:
  "\<exists>p::int. progress groups = Finite (of_int p) \<and> 0 \<le> p \<and> p \<le> 100"
proof -
  define y where "y = nearest_binary64 (nearest_binary64
      (of_nat (successCount groups) / of_nat (max (length groups) 1)) * 100)"
  have p: "progress groups = Finite (of_int \<lfloor>y + 1 / 2\<rfloor>)" and y: "0 \<le> y" "y \<le> 100"
    unfolding y_def by (rule progress_unfold)+
  have "0 \<le> \<lfloor>y + 1 / 2\<rfloor>"
    using y(1) by (simp add: le_floor_iff)
  moreover have "\<lfloor>y + 1 / 2\<rfloor> \<le> 100"
    using y(2) by (simp add: floor_le_iff)
  ultimately show ?thesis
    using p by blast
qed

lemma progress_Nil: "progress [] = Finite 0"
proof -
  have "\<lfloor>1 / 2 :: rat\<rfloor> = 0"
    by (rule floor_unique) simp_all
  then show ?thesis
    by (simp add: progress_def successCount_def js_divide_def js_times_def Math_round_def
        binary64_def)
qed

lemma round_half_perturbed:
  fixes x y eps :: rat and c n :: int
  assumes n: "0 < n" and x: "x = of_int c / of_int n"
    and close: "\<bar>y - x\<bar> \<le> eps" and small: "eps * (2 * of_int n) < 1"
  shows "\<lfloor>y + 1 / 2\<rfloor> = \<lfloor>x + 1 / 2\<rfloor>
     \<or> (\<lfloor>y + 1 / 2\<rfloor> = \<lfloor>x + 1 / 2\<rfloor> - 1 \<and> x + 1 / 2 = of_int \<lfloor>x + 1 / 2\<rfloor>)"
proof -
  define m where "m = \<lfloor>x + 1 / 2\<rfloor>"
  define k where "k = 2 * c + n - 2 * n * m"
  define d :: rat where "d = 2 * of_int n"
  have d: "0 < d" "1 \<le> d"
    using n by (simp_all add: d_def)
  have kx: "of_int k = (x + 1 / 2 - of_int m) * d"
    using n by (simp add: k_def x d_def field_simps)
  have m1: "of_int m \<le> x + 1 / 2" and m2: "x + 1 / 2 < of_int m + 1"
    unfolding m_def by linarith+
  have eps: "eps * d < 1"
    using small by (simp add: d_def)
  have yl: "x - eps \<le> y" and yu: "y \<le> x + eps"
    using close by (simp_all add: abs_le_iff)
  have eps0: "0 \<le> eps"
    using close by simp
  have eps1: "eps < 1"
  proof -
    have "eps * 1 \<le> eps * d"
      using d(2) eps0 by (rule mult_left_mono)
    then show ?thesis using eps by simp
  qed
  show ?thesis
  proof (cases "k = 0")
    case True
    then have "(x + 1 / 2 - of_int m) * d = 0"
      using kx by simp
    then have xm: "x + 1 / 2 = of_int m"
      using d(1) by simp
    have "of_int (m - 1) \<le> y + 1 / 2"
      using yl xm eps1 by simp
    then have lo: "m - 1 \<le> \<lfloor>y + 1 / 2\<rfloor>"
      by (simp only: le_floor_iff)
    have "y + 1 / 2 < of_int (m + 1)"
      using yu xm eps1 by simp
    then have hi: "\<lfloor>y + 1 / 2\<rfloor> < m + 1"
      by (simp only: floor_less_iff)
    from lo hi have "\<lfloor>y + 1 / 2\<rfloor> = m \<or> \<lfloor>y + 1 / 2\<rfloor> = m - 1"
      by linarith
    then show ?thesis
      using xm unfolding m_def by blast
  next
    case False
    have "0 \<le> (of_int k :: rat)"
      unfolding kx using m1 d(1) by simp
    then have "1 \<le> k"
      using False by simp
    then have "(1::rat) \<le> of_int k"
      by simp
    then have "eps * d < (x + 1 / 2 - of_int m) * d"
      using eps kx by simp
    then have g: "eps < x + 1 / 2 - of_int m"
      using d(1) by simp
    have "(of_int k :: rat) < 1 * d"
      unfolding kx using m2 d(1) by (intro mult_strict_right_mono) simp_all
    then have "(of_int k :: rat) < of_int (2 * n)"
      by (simp add: d_def)
    then have "k < 2 * n"
      by (simp only: of_int_less_iff)
    then have "k + 1 \<le> 2 * n"
      by simp
    then have "(of_int (k + 1) :: rat) \<le> of_int (2 * n)"
      by (simp only: of_int_le_iff)
    then have "(x + 1 / 2 - of_int m) * d + eps * d < d"
      using eps kx by (simp add: d_def)
    then have "(x + 1 / 2 - of_int m + eps) * d < 1 * d"
      by (simp add: distrib_right)
    then have h: "x + 1 / 2 - of_int m + eps < 1"
      using d(1) by (simp only: mult_less_cancel_right_pos)
    have "of_int m \<le> y + 1 / 2"
      using yl g by simp
    moreover have "y + 1 / 2 < of_int m + 1"
      using yu h by simp
    ultimately have "\<lfloor>y + 1 / 2\<rfloor> = m"
      by (rule floor_unique)
    then show ?thesis
      by (simp add: m_def)
  qed
qed

lemma double_rounding_error:
  fixes q :: rat
  assumes q0: "2 powi (- 1022) \<le> q" and q1: "q \<le> 1"
  shows "\<bar>nearest_binary64 (nearest_binary64 q * 100) - q * 100\<bar> \<le> 200 / 2 ^ 53"
proof -
  define a where "a = nearest_binary64 q"
  define y where "y = nearest_binary64 (a * 100)"
  have "(0::rat) < 2 powi (- 1022)"
    by (simp only: zero_less_power_int zero_less_numeral)
  then have qpos: "0 < q"
    using q0 by (rule less_le_trans)
  have aq: "\<bar>a - q\<bar> \<le> q / 2 ^ 53"
    unfolding a_def using nearest_binary64_error [of q] q0 qpos by simp
  have "q \<le> of_int 1" using q1 by simp
  then have a1: "a \<le> 1"
    unfolding a_def using nearest_binary64_between(2) [of q 1] qpos by simp
  have "q / 2 ^ 53 \<le> q / 2"
    using qpos by (simp add: frac_le)
  with aq have "\<bar>a - q\<bar> \<le> q / 2"
    by (rule order_trans)
  then have "q / 2 \<le> a"
    by linarith
  then have "q \<le> a * 100"
    using qpos by simp
  then have a0: "2 powi (- 1022) \<le> \<bar>a * 100\<bar>"
    using q0 by simp
  have "\<bar>y - a * 100\<bar> \<le> \<bar>a * 100\<bar> / 2 ^ 53"
    unfolding y_def using a0 by (rule nearest_binary64_error)
  also have "\<dots> \<le> 100 / 2 ^ 53"
    using a1 \<open>q \<le> a * 100\<close> qpos by (simp add: divide_right_mono)
  finally have ya: "\<bar>y - a * 100\<bar> \<le> 100 / 2 ^ 53" .
  have "a * 100 - q * 100 = (a - q) * 100"
    by (simp only: left_diff_distrib)
  then have "\<bar>a * 100 - q * 100\<bar> = \<bar>a - q\<bar> * 100"
    by (simp only: abs_mult abs_numeral)
  also have "\<dots> \<le> q / 2 ^ 53 * 100"
    using aq by (simp only: mult_le_cancel_right_pos zero_less_numeral)
  also have "\<dots> \<le> 100 / 2 ^ 53"
    using q1 by simp
  finally have "\<bar>a * 100 - q * 100\<bar> \<le> 100 / 2 ^ 53" .
  then have "\<bar>y - q * 100\<bar> \<le> 200 / 2 ^ 53"
    using ya by linarith
  then show ?thesis
    by (simp add: y_def a_def)
qed

lemma progress_nearest:
  fixes groups :: "PostGroup list"
  defines "x \<equiv> (of_nat (successCount groups) / of_nat (max (length groups) 1) * 100 :: rat)"
  assumes len: "length groups < 2 ^ 32"
  shows "\<exists>p::int. progress groups = Finite (of_int p)
     \<and> (p = \<lfloor>x + 1 / 2\<rfloor> \<or> (p = \<lfloor>x + 1 / 2\<rfloor> - 1 \<and> x + 1 / 2 = of_int \<lfloor>x + 1 / 2\<rfloor>))"
proof -
  define s where "s = successCount groups"
  define n where "n = max (length groups) 1"
  define q :: rat where "q = of_nat s / of_nat n"
  define y where "y = nearest_binary64 (nearest_binary64 q * 100)"
  have p: "progress groups = Finite (of_int \<lfloor>y + 1 / 2\<rfloor>)" and q1: "q \<le> 1"
    unfolding y_def q_def s_def n_def by (rule progress_unfold)+
  have n: "0 < n" "n \<le> 2 ^ 32"
    using len by (simp_all add: n_def)
  have x: "x = of_int (100 * int s) / of_int (int n)"
    by (simp add: x_def s_def n_def)
  have xq: "x = q * 100"
    by (simp add: x_def q_def s_def n_def)
  have close: "\<bar>y - x\<bar> \<le> 200 / 2 ^ 53"
  proof (cases "s = 0")
    case True
    then show ?thesis
      by (simp add: y_def q_def xq)
  next
    case False
    have "(2::rat) powi (- 1022) \<le> 1 / 2 ^ 32"
      by (simp add: power_int_minus_divide)
    also have "\<dots> \<le> 1 / of_nat n"
    proof -
      have "(of_nat n :: rat) \<le> of_nat (2 ^ 32)"
        using n(2) by (simp only: of_nat_le_iff)
      then show ?thesis
        using n(1) by (simp add: frac_le)
    qed
    also have "\<dots> \<le> q"
      unfolding q_def using False n(1) by (simp add: divide_right_mono)
    finally have "2 powi (- 1022) \<le> q" .
    then show ?thesis
      unfolding y_def xq using q1 by (rule double_rounding_error)
  qed
  have "(of_int (int n) :: rat) \<le> of_int (2 ^ 32)"
    using n(2) by (simp only: of_int_le_iff) simp
  then have small: "(200 / 2 ^ 53 :: rat) * (2 * of_int (int n)) < 1"
    by simp
  have "0 < int n"
    using n(1) by simp
  from round_half_perturbed [OF this x close small] p
  show ?thesis
    by blast
qed

lemma progress_eval:
  "progress groups =
     Finite (of_int \<lfloor>nearest_binary64
       (nearest_binary64 (of_nat (successCount groups) / of_nat (max (length groups) 1)) * 100)
         + 1 / 2\<rfloor>)"
  by (rule progress_unfold(1))

lemma one_of_eight: "\<lfloor>nearest_binary64 (nearest_binary64 (1 / 8) * 100) + 1 / 2\<rfloor> = 13"
  by code_simp


lemma tie_23_of_40: "\<lfloor>nearest_binary64 (nearest_binary64 (23 / 40) * 100) + 1 / 2\<rfloor> = 57"
  by code_simp

section \<open>Progress\<close>

text \<open>
  Claim C5, as stated, at a concrete input. With 23 groups posted out of 40 the exact
  value of \<open>successCount / max(total, 1) * 100\<close> is 57.5, which rounds to 58. The
  quotient 0.575 is not a binary64 number; the product computed from the number
  nearest to it is 57.49999999999999, and the percentage is 57.
\<close>

theorem progress_tie_counterexample:
  "progress (map (\<lambda>st. \<lparr>group_id = ''g'', images = [], status = st, error = None,
                           retryCount = 0\<rparr>) (replicate 23 success @ replicate 17 pending))
     = Finite 57
   \<and> round (of_nat (successCount
                (map (\<lambda>st. \<lparr>group_id = ''g'', images = [], status = st, error = None,
                               retryCount = 0\<rparr>) (replicate 23 success @ replicate 17 pending)))
            / of_nat (max (length
                (map (\<lambda>st. \<lparr>group_id = ''g'', images = [], status = st, error = None,
                               retryCount = 0\<rparr>) (replicate 23 success @ replicate 17 pending)))
                1) * 100 :: rat)
     = 58"
proof -
  let ?gs = "map (\<lambda>st. \<lparr>group_id = ''g'', images = [], status = st, error = None,
                       retryCount = 0\<rparr>) (replicate 23 success @ replicate 17 pending)"
  have s: "successCount ?gs = 23" and n: "max (length ?gs) 1 = 40"
    by (simp_all add: successCount_def)
  have a: "progress ?gs = Finite 57"
    unfolding progress_eval s n using tie_23_of_40 by simp
  have "round (of_nat 23 / of_nat 40 * 100 :: rat) = 58"
    by (simp add: round_def)
  then have b: "round (of_nat (successCount ?gs) / of_nat (max (length ?gs) 1) * 100 :: rat) = 58"
    by (simp only: s n)
  show ?thesis
    using a b by (rule conjI)
qed

text \<open>
  Claim C5, amended. For every list of groups the percentage is \<open>Math.round\<close> (the
  nearest integer, the larger one at a tie) of the binary64 product by 100 of the
  binary64 quotient \<open>successCount / max(total, 1)\<close>. It is a finite integer between 0
  and 100, never NaN or an infinity, and it is 0 for the empty list. For every list
  that fits a JavaScript array (fewer than \<open>2\<^sup>3\<^sup>2\<close> entries) it is equal to the exact
  value of \<open>successCount / max(total, 1) * 100\<close> rounded to the nearest integer, except
  that where the exact value lies halfway between two integers it is either the larger
  or the smaller of the two.
\<close>

theorem progress_is_binary64_rounded_percentage:
  "(\<exists>p::int. progress groups = Finite (of_int p)
      \<and> p = \<lfloor>nearest_binary64
               (nearest_binary64
                  (of_nat (successCount groups) / of_nat (max (length groups) 1)) * 100)
             + 1 / 2\<rfloor>
      \<and> 0 \<le> p \<and> p \<le> 100
      \<and> (length groups < 2 ^ 32 \<longrightarrow>
            p = round (of_nat (successCount groups) / of_nat (max (length groups) 1) * 100 :: rat)
          \<or> (p = round (of_nat (successCount groups) / of_nat (max (length groups) 1) * 100
                         :: rat) - 1
             \<and> of_nat (successCount groups) / of_nat (max (length groups) 1) * 100 + 1 / 2
                 = (of_int (round (of_nat (successCount groups)
                                    / of_nat (max (length groups) 1) * 100 :: rat)) :: rat))))
   \<and> progress [] = Finite 0"
proof -
  define x :: rat
    where "x = of_nat (successCount groups) / of_nat (max (length groups) 1) * 100"
  define p :: int
    where "p = \<lfloor>nearest_binary64
               (nearest_binary64
                  (of_nat (successCount groups) / of_nat (max (length groups) 1)) * 100)
             + 1 / 2\<rfloor>"
  have e: "progress groups = Finite (of_int p)"
    unfolding p_def by (rule progress_eval)
  obtain p0 :: int where "progress groups = Finite (of_int p0)" and "0 \<le> p0" and "p0 \<le> 100"
    using progress_range by blast
  then have r: "0 \<le> p" "p \<le> 100"
    using e by simp_all
  have t: "p = round x \<or> (p = round x - 1 \<and> x + 1 / 2 = of_int (round x))"
    if len: "length groups < 2 ^ 32"
  proof -
    obtain p' :: int where p': "progress groups = Finite (of_int p')"
      and d: "p' = \<lfloor>x + 1 / 2\<rfloor> \<or> (p' = \<lfloor>x + 1 / 2\<rfloor> - 1 \<and> x + 1 / 2 = of_int \<lfloor>x + 1 / 2\<rfloor>)"
      using progress_nearest [OF len] unfolding x_def by blast
    have "p' = p"
      using e p' by simp
    then show ?thesis
      using d by (simp only: round_def)
  qed
  have "progress groups = Finite (of_int p) \<and> p = p \<and> 0 \<le> p \<and> p \<le> 100
      \<and> (length groups < 2 ^ 32 \<longrightarrow>
            p = round x \<or> (p = round x - 1 \<and> x + 1 / 2 = of_int (round x)))"
    using e r t by blast
  then show ?thesis
    unfolding x_def p_def using progress_Nil by blast
qed

text \<open>
  The same at one group posted out of 8: the exact value 12.5 lies halfway, the
  quotient 0.125 and the product 12.5 are binary64 numbers, and the percentage is 13.
\<close>

theorem progress_is_binary64_rounded_percentage_witness:
  "length (map (\<lambda>st. \<lparr>group_id = ''g'', images = [], status = st, error = None,
                       retryCount = 0\<rparr>) (success # replicate 7 pending)) < 2 ^ 32
   \<and> (\<exists>p::int.
         progress (map (\<lambda>st. \<lparr>group_id = ''g'', images = [], status = st, error = None,
                                retryCount = 0\<rparr>) (success # replicate 7 pending))
           = Finite (of_int p)
       \<and> 0 \<le> p \<and> p \<le> 100
       \<and> (p = round (1 / 8 * 100 :: rat)
          \<or> p = round (1 / 8 * 100 :: rat) - 1))
   \<and> progress (map (\<lambda>st. \<lparr>group_id = ''g'', images = [], status = st, error = None,
                              retryCount = 0\<rparr>) (success # replicate 7 pending))
       = Finite 13
   \<and> round (1 / 8 * 100 :: rat) = 13"
proof -
  let ?gs = "map (\<lambda>st. \<lparr>group_id = ''g'', images = [], status = st, error = None,
                       retryCount = 0\<rparr>) (success # replicate 7 pending)"
  have len: "length ?gs < 2 ^ 32"
    by simp
  have s: "successCount ?gs = 1" and n: "max (length ?gs) 1 = 8"
    by (simp_all add: successCount_def)
  from progress_is_binary64_rounded_percentage [of ?gs] len
  obtain p :: int where "progress ?gs = Finite (of_int p)" "0 \<le> p" "p \<le> 100"
    "p = round (of_nat (successCount ?gs) / of_nat (max (length ?gs) 1) * 100 :: rat)
     \<or> p = round (of_nat (successCount ?gs) / of_nat (max (length ?gs) 1) * 100 :: rat) - 1"
    by blast
  then have a: "\<exists>p::int. progress ?gs = Finite (of_int p) \<and> 0 \<le> p \<and> p \<le> 100
      \<and> (p = round (1 / 8 * 100 :: rat) \<or> p = round (1 / 8 * 100 :: rat) - 1)"
    unfolding s n by auto
  have b: "progress ?gs = Finite 13"
    unfolding progress_eval s n using one_of_eight by simp
  have c: "round (1 / 8 * 100 :: rat) = 13"
    by (simp add: round_def)
  show ?thesis
    using len a b c by blast
qed

text \<open>
  Claim C8. The panel renders the waiting block exactly when the list of groups is
  empty. The bar, the caption and the rows are rendered only for a non-empty list,
  with one row per group.
\<close>

theorem waiting_iff_no_groups:
  "progress_panel [] = Waiting
   \<and> (progress_panel groups = Waiting) = (groups = [])
   \<and> (groups \<noteq> [] \<longrightarrow>
        (\<exists>rows. progress_panel groups =
            ProgressBar (progress groups) (successCount groups) (length groups) rows
          \<and> length rows = length groups))"
  by (simp add: progress_panel_def)

text \<open>The same at a single group that is being posted, which renders a bar of width 0.\<close>

theorem waiting_iff_no_groups_witness:
  "[\<lparr>group_id = ''g1'', images = [''a'', ''b''], status = posting, error = None,
     retryCount = 0\<rparr>] \<noteq> []
   \<and> progress_panel
        [\<lparr>group_id = ''g1'', images = [''a'', ''b''], status = posting, error = None,
          retryCount = 0\<rparr>]
       = ProgressBar (Finite 0) 0 1 [(1, 2, posting)]
   \<and> progress_panel [] = Waiting"
proof -
  let ?gs = "[\<lparr>group_id = ''g1'', images = [''a'', ''b''], status = posting, error = None,
     retryCount = 0\<rparr>]"
  have ne: "?gs \<noteq> []" by simp
  from waiting_iff_no_groups [of ?gs] ne
  obtain rows where r: "progress_panel ?gs =
      ProgressBar (progress ?gs) (successCount ?gs) (length ?gs) rows"
    and w: "progress_panel [] = Waiting"
    by blast
  have s: "successCount ?gs = 0" and n: "max (length ?gs) 1 = 1"
    by (simp_all add: successCount_def)
  have p: "progress ?gs = Finite 0"
    unfolding progress_eval s n by (simp add: floor_unique)
  have "rows = [(1, 2, posting)]"
    using r by (auto simp add: progress_panel_def numeral_2_eq_2)
  then show ?thesis
    using r w p s by simp
qed

end
